theory Spec2Isabelle
  imports Main "HOL-Library.Monad_Syntax"
begin

section \<open>fsquad.c: the firing squad simulation\<close>

text \<open>
  The program keeps two global arrays of pointers to \<open>struct machine\<close>, \<open>machines\<close> and
  \<open>machines_old\<close>. Every field of the struct is a C \<open>int\<close>; the values written by the
  program are the small constants of the \<open>#define\<close>s below, so the fields are modelled
  as \<open>int\<close>. An array is a list of structs whose length is the number of allocated
  entries; an access outside of it (a wild or null pointer in C) is the result \<open>None\<close>.
\<close>

subsection \<open>Constants (fsquad.c, lines 86-131)\<close>

abbreviation (input) MAX_LENGTH :: int where "MAX_LENGTH \<equiv> 1024"

abbreviation (input) TRUE :: int where "TRUE \<equiv> 1"
abbreviation (input) FALSE :: int where "FALSE \<equiv> 0"

abbreviation (input) RED :: int where "RED \<equiv> 0"
abbreviation (input) BLACK :: int where "BLACK \<equiv> 1"

abbreviation (input) PASSIVE :: int where "PASSIVE \<equiv> 0"
abbreviation (input) ACTIVE :: int where "ACTIVE \<equiv> 1"

abbreviation (input) GENERAL :: int where "GENERAL \<equiv> 0"
abbreviation (input) SOLDIER :: int where "SOLDIER \<equiv> 1"

abbreviation (input) NO_MSG :: int where "NO_MSG \<equiv> 0"
abbreviation (input) TEST_MSG :: int where "TEST_MSG \<equiv> 1"
abbreviation (input) MID_TEST_MSG :: int where "MID_TEST_MSG \<equiv> 2"
abbreviation (input) MID_ACK_MSG :: int where "MID_ACK_MSG \<equiv> 3"
abbreviation (input) RESET_MSG :: int where "RESET_MSG \<equiv> 4"
abbreviation (input) PROMOTE_MSG :: int where "PROMOTE_MSG \<equiv> 5"

abbreviation (input) LEFT :: int where "LEFT \<equiv> 0"
abbreviation (input) RIGHT :: int where "RIGHT \<equiv> 1"
abbreviation (input) BROADCAST :: int where "BROADCAST \<equiv> 2"

subsection \<open>The machine struct (lines 133-143)\<close>

record machine =
  activity :: int
  timer :: int
  color :: int
  type :: int
  message_direction :: int
  message :: int
  testing :: int

text \<open>\<open>deref a i\<close> is the C expression \<open>*a[i]\<close>: it fails outside the allocated entries.\<close>

definition deref :: "machine list \<Rightarrow> int \<Rightarrow> machine option" where
  "deref a i = (if 0 \<le> i \<and> i < int (length a) then Some (a ! nat i) else None)"

text \<open>
  Lines 629-633, the common exit of \<open>update_state\<close>: the locals \<open>act\<close>, \<open>dir\<close> and
  \<open>msg\<close> are stored into \<open>machines[j]\<close>.
\<close>

definition commit :: "machine \<Rightarrow> int \<Rightarrow> int \<Rightarrow> int \<Rightarrow> machine" where
  "commit m act dir msg = m\<lparr>activity := act, message_direction := dir, message := msg\<rparr>"

text \<open>
  The message a neighbour offers (lines 373-379 and 423-430): its \<open>message\<close> when its
  \<open>message_direction\<close> points at us or is a broadcast, \<open>NO_MSG\<close> otherwise.
\<close>

definition from_left :: "machine \<Rightarrow> int" where
  "from_left l =
     (if message_direction l = RIGHT \<or> message_direction l = BROADCAST then message l else NO_MSG)"

definition from_right :: "machine \<Rightarrow> int" where
  "from_right r =
     (if message_direction r = LEFT \<or> message_direction r = BROADCAST then message r else NO_MSG)"

subsection \<open>update\_state, the General branch (lines 362-417)\<close>

text \<open>
  The local \<open>dir\<close> is declared without an initialiser (line 360) and several paths reach
  line 632 without assigning it. Its value there is whatever the stack holds; the model
  takes it as the parameter \<open>dir0\<close>, so every theorem holds for each such value.

  The test of lines 411-413 reads \<open>machines[j-1]->type\<close> and \<open>machines[j+1]->type\<close>,
  that is the array being written, under C's short-circuit evaluation: the left struct
  is read only when \<open>lm == TEST_MSG\<close>, the right one only when the left disjunct is
  false and \<open>rm == TEST_MSG\<close>.
\<close>

definition soldier_test :: "machine list \<Rightarrow> int \<Rightarrow> int \<Rightarrow> int \<Rightarrow> bool option" where
  "soldier_test machines j lm rm = do {
     c \<leftarrow> (if lm = TEST_MSG
            then do { l \<leftarrow> deref machines (j - 1); Some (type l = SOLDIER) }
            else Some False);
     if c then Some True
     else if rm = TEST_MSG
       then do { r \<leftarrow> deref machines (j + 1); Some (type r = SOLDIER) }
       else Some False
   }"

text \<open>
  Lines 364-369 and 381-415 for given \<open>lm\<close> and \<open>rm\<close>: \<open>mo\<close> is \<open>*machines_old[j]\<close>,
  \<open>m\<close> is \<open>*machines[j]\<close>, the result is the new content of \<open>*machines[j]\<close>. \<open>test\<close>
  is the outcome of the test of lines 411-413, which is looked at in that branch only.
\<close>

definition general_rule ::
  "machine \<Rightarrow> machine \<Rightarrow> int \<Rightarrow> int \<Rightarrow> bool option \<Rightarrow> int \<Rightarrow> machine option" where
  "general_rule mo m lm rm test dir0 =
     (let act = (if activity mo = ACTIVE then ACTIVE else PASSIVE) in
      if rm = RESET_MSG \<or> lm = RESET_MSG then Some (m\<lparr>activity := PASSIVE\<rparr>)
      else if rm = MID_TEST_MSG \<and> lm = MID_TEST_MSG then
        Some (commit m act BROADCAST MID_ACK_MSG)
      else if rm = MID_TEST_MSG then Some (commit m act RIGHT MID_ACK_MSG)
      else if lm = MID_TEST_MSG then Some (commit m act LEFT MID_ACK_MSG)
      else if activity mo = ACTIVE then
        (if testing mo = TRUE then
           Some (commit (m\<lparr>testing := FALSE\<rparr>) ACTIVE BROADCAST TEST_MSG)
         else
           (case test of
              None \<Rightarrow> None
            | Some c \<Rightarrow> Some (commit (if c then m\<lparr>testing := TRUE\<rparr> else m) act dir0 NO_MSG)))
      else Some (commit m act dir0 NO_MSG))"

text \<open>
  The whole branch: the messages are read from \<open>machines_old\<close> (lines 372-379), the
  left one only when \<open>j\<close> is not \<open>0\<close>, the right one only when \<open>j < N-1\<close>.
\<close>

definition update_general ::
  "int \<Rightarrow> machine list \<Rightarrow> machine list \<Rightarrow> int \<Rightarrow> int \<Rightarrow> machine option" where
  "update_general N machines_old machines dir0 j = do {
     mo \<leftarrow> deref machines_old j;
     m \<leftarrow> deref machines j;
     lm \<leftarrow> (if j \<noteq> 0 then do { l \<leftarrow> deref machines_old (j - 1); Some (from_left l) }
            else Some NO_MSG);
     rm \<leftarrow> (if j < N - 1 then do { r \<leftarrow> deref machines_old (j + 1); Some (from_right r) }
            else Some NO_MSG);
     general_rule mo m lm rm (soldier_test machines j lm rm) dir0
   }"

subsection \<open>update\_state, the Soldier branch (lines 419-627)\<close>

text \<open>
  The passive case (lines 566-622): the fields written by the chain of tests and the
  locals \<open>dir\<close> and \<open>msg\<close>, before the timer is decremented at lines 623-624.
\<close>

definition passive_soldier :: "machine \<Rightarrow> machine \<Rightarrow> int \<Rightarrow> int \<Rightarrow> machine \<times> int \<times> int" where
  "passive_soldier mo m lm rm =
     (if testing mo = TRUE \<and> rm = MID_ACK_MSG then
        (if timer mo \<ge> 1 then (m\<lparr>testing := FALSE, timer := 0\<rparr>, RIGHT, PROMOTE_MSG)
         else (m\<lparr>testing := FALSE\<rparr>, LEFT, TEST_MSG))
      else if testing mo = TRUE \<and> lm = MID_ACK_MSG then
        (if timer mo \<ge> 1 then (m\<lparr>testing := FALSE, timer := 0\<rparr>, LEFT, PROMOTE_MSG)
         else (m\<lparr>testing := FALSE\<rparr>, RIGHT, TEST_MSG))
      else if lm \<noteq> NO_MSG then (m, RIGHT, lm)
      else (m, LEFT, rm))"

text \<open>Lines 432-625 for given \<open>lm\<close> and \<open>rm\<close>, with \<open>mo\<close> and \<open>m\<close> as above.\<close>

definition soldier_rule :: "machine \<Rightarrow> machine \<Rightarrow> int \<Rightarrow> int \<Rightarrow> int \<Rightarrow> machine" where
  "soldier_rule mo m lm rm dir0 =
     (if lm = PROMOTE_MSG then
        m\<lparr>type := GENERAL, color := RED, activity := ACTIVE, testing := TRUE,
          message := RESET_MSG, message_direction := RIGHT\<rparr>
      else if rm = PROMOTE_MSG then
        m\<lparr>type := GENERAL, color := RED, activity := ACTIVE, testing := TRUE,
          message := RESET_MSG, message_direction := LEFT\<rparr>
      else if message mo = PROMOTE_MSG then
        m\<lparr>type := GENERAL, color := RED, activity := ACTIVE, testing := TRUE,
          message := RESET_MSG, timer := 0,
          message_direction := (if message_direction mo = RIGHT then LEFT else RIGHT)\<rparr>
      else if rm = NO_MSG \<and> lm = NO_MSG then
        (let m1 = m\<lparr>message := NO_MSG\<rparr>
         in if timer mo \<noteq> 0 then m1\<lparr>timer := timer m1 - 1\<rparr> else m1)
      else if lm = RESET_MSG \<or> rm = RESET_MSG then
        commit m ACTIVE (if lm = RESET_MSG then RIGHT else LEFT) RESET_MSG
      else if activity mo = ACTIVE then
        (if rm = TEST_MSG \<or> lm = TEST_MSG then
           commit (m\<lparr>testing := TRUE\<rparr>) ACTIVE BROADCAST MID_TEST_MSG
         else if rm = MID_ACK_MSG then
           (if lm = MID_ACK_MSG then
              commit (m\<lparr>type := GENERAL, color := RED, testing := TRUE\<rparr>)
                ACTIVE BROADCAST RESET_MSG
            else if testing mo = 0 then commit m ACTIVE LEFT MID_ACK_MSG
            else commit (m\<lparr>timer := 3\<rparr>) PASSIVE dir0 NO_MSG)
         else if lm = MID_ACK_MSG then
           (if rm = MID_ACK_MSG then
              commit (m\<lparr>type := GENERAL, color := RED, testing := TRUE\<rparr>)
                ACTIVE BROADCAST RESET_MSG
            else if testing mo = 0 then commit m ACTIVE RIGHT MID_ACK_MSG
            else commit (m\<lparr>timer := 3\<rparr>) PASSIVE dir0 NO_MSG)
         else if lm \<noteq> NO_MSG then commit m ACTIVE RIGHT lm
         else commit m ACTIVE LEFT rm)
      else
        (case passive_soldier mo m lm rm of
           (m1, dir, msg) \<Rightarrow>
             commit (if timer mo \<noteq> 0 then m1\<lparr>timer := timer m1 - 1\<rparr> else m1)
               PASSIVE dir msg))"

text \<open>
  The whole branch: both neighbours are read from \<open>machines_old\<close> without any test of
  \<open>j\<close> (lines 423-430).
\<close>

definition update_soldier ::
  "machine list \<Rightarrow> machine list \<Rightarrow> int \<Rightarrow> int \<Rightarrow> machine option" where
  "update_soldier machines_old machines dir0 j = do {
     mo \<leftarrow> deref machines_old j;
     m \<leftarrow> deref machines j;
     l \<leftarrow> deref machines_old (j - 1);
     r \<leftarrow> deref machines_old (j + 1);
     Some (soldier_rule mo m (from_left l) (from_right r) dir0)
   }"

subsection \<open>update\_state (lines 357-634)\<close>

definition update_state ::
  "int \<Rightarrow> machine list \<Rightarrow> machine list \<Rightarrow> int \<Rightarrow> int \<Rightarrow> machine list option" where
  "update_state N machines_old machines dir0 j = do {
     mo \<leftarrow> deref machines_old j;
     m' \<leftarrow> (if type mo = GENERAL then update_general N machines_old machines dir0 j
            else update_soldier machines_old machines dir0 j);
     Some (machines[nat j := m'])
   }"

subsection \<open>One time step (lines 247-253)\<close>

text \<open>
  \<open>update_all\<close> is the loop \<open>for(j=0;j<N;j++)update_state(j)\<close> over the positions still
  to visit; \<open>g j\<close> is the left-over value of \<open>dir\<close> in the call for position \<open>j\<close>.
  \<open>step\<close> first copies \<open>machines\<close> into \<open>machines_old\<close> (lines 247-248).
\<close>

fun update_all ::
  "int \<Rightarrow> machine list \<Rightarrow> (nat \<Rightarrow> int) \<Rightarrow> nat list \<Rightarrow> machine list \<Rightarrow> machine list option" where
  "update_all N machines_old g [] machines = Some machines"
| "update_all N machines_old g (j # js) machines =
     (case update_state N machines_old machines (g j) (int j) of
        None \<Rightarrow> None
      | Some machines' \<Rightarrow> update_all N machines_old g js machines')"

definition step :: "int \<Rightarrow> (nat \<Rightarrow> int) \<Rightarrow> machine list \<Rightarrow> machine list option" where
  "step N g machines = update_all N machines g [0..<nat N] machines"

subsection \<open>The initial line (lines 200-235)\<close>

text \<open>
  \<open>malloc\<close> does not initialise the structs; lines 212-235 then assign all seven fields
  of every position \<open>0..N-1\<close>, in the order position \<open>0\<close>, positions \<open>1..N-2\<close>, position
  \<open>N-1\<close> (so for \<open>N = 1\<close> the second General overwrites the first). \<open>fresh\<close> stands for
  the content of a struct as allocated.
\<close>

definition fresh :: machine where
  "fresh = \<lparr>activity = 0, timer = 0, color = 0, type = 0, message_direction = 0,
            message = 0, testing = 0\<rparr>"

definition first_general :: machine where
  "first_general = \<lparr>activity = ACTIVE, timer = 0, color = RED, type = GENERAL,
                    message_direction = RIGHT, message = NO_MSG, testing = TRUE\<rparr>"

definition new_soldier :: machine where
  "new_soldier = \<lparr>activity = ACTIVE, timer = 0, color = BLACK, type = SOLDIER,
                  message_direction = BROADCAST, message = NO_MSG, testing = FALSE\<rparr>"

definition last_general :: machine where
  "last_general = \<lparr>activity = PASSIVE, timer = 0, color = RED, type = GENERAL,
                   message_direction = LEFT, message = NO_MSG, testing = FALSE\<rparr>"

definition initial :: "int \<Rightarrow> machine list" where
  "initial N =
     (let a0 = replicate (nat N) fresh;
          a1 = a0[0 := first_general];
          a2 = fold (\<lambda>i a. a[i := new_soldier]) [1..<nat (N - 1)] a1
      in a2[nat (N - 1) := last_general])"

subsection \<open>The firing test (lines 257-264)\<close>

text \<open>
  The condition of line 261 is \<open>!machines[j]->color == RED\<close>, which C parses as
  \<open>(!machines[j]->color) == RED\<close>. \<open>c_not\<close> is C's logical negation.
\<close>

definition c_not :: "int \<Rightarrow> int" where
  "c_not x = (if x = 0 then 1 else 0)"

fun fire :: "machine list \<Rightarrow> int" where
  "fire [] = TRUE"
| "fire (m # ms) = (if c_not (color m) = RED then FALSE else fire ms)"

subsection \<open>The main loop (lines 239-273)\<close>

text \<open>
  The loop has no bound of its own, so the model takes fuel: \<open>Running\<close> says that the
  loop is still going when the fuel is used up. \<open>Fired t a\<close> is the exit of line 267,
  \<open>Stopped t a\<close> the exit of line 245; \<open>t\<close> is the number printed at line 273 and \<open>a\<close>
  the last snapshot. \<open>Fault\<close> is an access outside the arrays. \<open>G t j\<close> is the left-over
  value of \<open>dir\<close> in the call \<open>update_state(j)\<close> of the iteration with counter \<open>t\<close>.
  The counter \<open>t\<close> is a C \<open>int\<close> that is only printed; it is modelled unbounded.
\<close>

datatype outcome = Fired int "machine list" | Stopped int "machine list" | Fault | Running

fun main_loop ::
  "nat \<Rightarrow> int \<Rightarrow> (int \<Rightarrow> nat \<Rightarrow> int) \<Rightarrow> int \<Rightarrow> int \<Rightarrow> machine list \<Rightarrow> outcome" where
  "main_loop 0 N G maxsteps t machines = Running"
| "main_loop (Suc fuel) N G maxsteps t machines =
     (if maxsteps = 0 then Stopped t machines
      else case step N (G t) machines of
        None \<Rightarrow> Fault
      | Some machines' \<Rightarrow>
          if fire machines' = TRUE then Fired t machines'
          else main_loop fuel N G (if maxsteps > 0 then maxsteps - 1 else maxsteps)
                 (t + 1) machines')"

subsection \<open>main after option parsing (lines 193-274)\<close>

text \<open>
  \<open>N\<close> and \<open>maxsteps\<close> are the values left by the option loop (\<open>maxsteps\<close> is \<open>-1\<close> when
  no \<open>-t\<close> was given, line 155); \<open>alloc\<close> tells whether every \<open>malloc\<close> of lines 202-203
  succeeds. \<open>Config_error\<close> is the \<open>return 1\<close> of line 197, \<open>Alloc_failed\<close> that of
  line 206.
\<close>

datatype exit = Config_error | Alloc_failed | Ran outcome

definition main :: "nat \<Rightarrow> int \<Rightarrow> int \<Rightarrow> bool \<Rightarrow> (int \<Rightarrow> nat \<Rightarrow> int) \<Rightarrow> exit" where
  "main fuel N maxsteps alloc G =
     (if N \<le> 0 \<or> N > MAX_LENGTH then Config_error
      else if \<not> alloc then Alloc_failed
      else Ran (main_loop fuel N G maxsteps 1 (initial N)))"

subsection \<open>The sequence of snapshots\<close>

text \<open>
  \<open>snapshot N G k\<close> is the content of \<open>machines\<close> after \<open>k\<close> executions of lines 247-253
  from the initial line, if none of them faults; \<open>stale\<close> is one concrete choice of the
  left-over values of \<open>dir\<close>.
\<close>

fun snapshot :: "int \<Rightarrow> (int \<Rightarrow> nat \<Rightarrow> int) \<Rightarrow> nat \<Rightarrow> machine list option" where
  "snapshot N G 0 = Some (initial N)"
| "snapshot N G (Suc k) =
     (case snapshot N G k of None \<Rightarrow> None | Some a \<Rightarrow> step N (G (int k + 1)) a)"

definition stale :: "int \<Rightarrow> nat \<Rightarrow> int" where
  "stale t j = BROADCAST"

subsection \<open>Notions used in the statements\<close>

text \<open>
  \<open>only_promoted m m'\<close>: from \<open>m\<close> to \<open>m'\<close> the colour is kept or turned Red, and the
  type is kept or turned General. \<open>ends_general N a\<close>: the array has \<open>N\<close> entries and
  every entry that is not a General lies strictly between position \<open>0\<close> and position
  \<open>N-1\<close>. \<open>printed_steps\<close> is the number shown by line 273.
\<close>

definition only_promoted :: "machine \<Rightarrow> machine \<Rightarrow> bool" where
  "only_promoted m m' \<longleftrightarrow>
     (color m' = color m \<or> color m' = RED) \<and> (type m' = type m \<or> type m' = GENERAL)"

definition ends_general :: "int \<Rightarrow> machine list \<Rightarrow> bool" where
  "ends_general N a \<longleftrightarrow>
     length a = nat N \<and> (\<forall>j<nat N. type (a ! j) \<noteq> GENERAL \<longrightarrow> 0 < j \<and> j < nat N - 1)"

fun printed_steps :: "exit \<Rightarrow> int option" where
  "printed_steps (Ran (Fired t a)) = Some t"
| "printed_steps (Ran (Stopped t a)) = Some t"
| "printed_steps _ = None"

subsection \<open>Lines used as examples\<close>



section \<open>Basic facts about one update and one step\<close>

lemma deref_Some: "deref a i = Some m \<longleftrightarrow> 0 \<le> i \<and> i < int (length a) \<and> m = a ! nat i"
  by (auto simp: deref_def)

lemma deref_in_range: "0 \<le> i \<Longrightarrow> i < int (length a) \<Longrightarrow> deref a i = Some (a ! nat i)"
  by (simp add: deref_def)

lemma only_promoted_refl: "only_promoted m m"
  by (simp add: only_promoted_def)

lemma only_promoted_trans: "only_promoted a b \<Longrightarrow> only_promoted b c \<Longrightarrow> only_promoted a c"
  by (auto simp: only_promoted_def)

lemma general_rule_promoted:
  "general_rule mo m lm rm c d = Some m' \<Longrightarrow> only_promoted m m'"
  by (auto simp: general_rule_def only_promoted_def commit_def Let_def split: if_splits option.splits)

lemma soldier_rule_promoted: "only_promoted m (soldier_rule mo m lm rm d)"
  by (simp add: soldier_rule_def passive_soldier_def only_promoted_def commit_def Let_def)

lemma update_general_SomeD:
  "update_general N old cur d j = Some m' \<Longrightarrow>
   0 \<le> j \<and> j < int (length old) \<and> j < int (length cur) \<and> only_promoted (cur ! nat j) m'"
  by (auto simp: update_general_def bind_eq_Some_conv deref_Some dest: general_rule_promoted)

lemma update_soldier_SomeD:
  "update_soldier old cur d j = Some m' \<Longrightarrow>
   0 \<le> j \<and> j < int (length old) \<and> j < int (length cur) \<and> only_promoted (cur ! nat j) m'"
  by (auto simp: update_soldier_def bind_eq_Some_conv deref_Some soldier_rule_promoted)

lemma update_state_SomeD:
  assumes "update_state N old cur d j = Some cur'"
  shows "0 \<le> j \<and> j < int (length old) \<and> j < int (length cur) \<and>
         (\<exists>m'. cur' = cur[nat j := m'] \<and> only_promoted (cur ! nat j) m')"
  using assms update_general_SomeD update_soldier_SomeD
  by (fastforce simp: update_state_def bind_eq_Some_conv split: if_splits)

lemma update_state_promoted:
  assumes "update_state N old cur d j = Some cur'"
  shows "length cur' = length cur \<and> (\<forall>p<length cur. only_promoted (cur ! p) (cur' ! p))"
proof -
  from update_state_SomeD [OF assms] obtain m' where
    j: "0 \<le> j" "j < int (length cur)" and cur': "cur' = cur[nat j := m']"
    and m': "only_promoted (cur ! nat j) m'"
    by blast
  show ?thesis
    using m' j by (auto simp: cur' nth_list_update only_promoted_refl)
qed

lemma update_all_promoted:
  "update_all N old g js cur = Some a' \<Longrightarrow>
   length a' = length cur \<and> (\<forall>p<length cur. only_promoted (cur ! p) (a' ! p))"
proof (induction js arbitrary: cur)
  case Nil
  then show ?case by (simp add: only_promoted_refl)
next
  case (Cons j js)
  from Cons.prems obtain c where c: "update_state N old cur (g j) (int j) = Some c"
    and rest: "update_all N old g js c = Some a'"
    by (auto split: option.splits)
  from update_state_promoted [OF c] Cons.IH [OF rest] show ?case
    by (auto intro: only_promoted_trans)
qed

lemma step_promoted:
  "step N g a = Some a' \<Longrightarrow>
   length a' = length a \<and> (\<forall>p<length a. only_promoted (a ! p) (a' ! p))"
  unfolding step_def by (rule update_all_promoted)

text \<open>No access leaves the arrays when every Soldier of the old array is interior.\<close>

lemma soldier_test_in_range:
  assumes "0 \<le> j" "j < N" "length cur = nat N"
    and "lm = TEST_MSG \<longrightarrow> j \<noteq> 0" "rm = TEST_MSG \<longrightarrow> j < N - 1"
  shows "soldier_test cur j lm rm \<noteq> None"
  using assms by (auto simp: soldier_test_def deref_def)

lemma general_rule_defined: "test \<noteq> None \<Longrightarrow> general_rule mo m lm rm test d \<noteq> None"
  by (auto simp: general_rule_def Let_def)

lemma update_general_defined:
  assumes "0 \<le> j" "j < N" "length old = nat N" "length cur = nat N"
  shows "update_general N old cur d j \<noteq> None"
proof -
  define lm where "lm = (if j \<noteq> 0 then from_left (old ! nat (j - 1)) else NO_MSG)"
  define rm where "rm = (if j < N - 1 then from_right (old ! nat (j + 1)) else NO_MSG)"
  have "soldier_test cur j lm rm \<noteq> None"
    using assms by (intro soldier_test_in_range) (auto simp: lm_def rm_def)
  then have "general_rule (old ! nat j) (cur ! nat j) lm rm (soldier_test cur j lm rm) d \<noteq> None"
    by (rule general_rule_defined)
  moreover have "update_general N old cur d j =
      general_rule (old ! nat j) (cur ! nat j) lm rm (soldier_test cur j lm rm) d"
    using assms by (simp add: update_general_def deref_def lm_def rm_def)
  ultimately show ?thesis by simp
qed

lemma update_soldier_defined:
  assumes "0 < j" "j < N - 1" "length old = nat N" "length cur = nat N"
  shows "update_soldier old cur d j \<noteq> None"
  using assms by (simp add: update_soldier_def deref_def)

lemma update_state_defined:
  assumes "ends_general N old" "length cur = nat N" "j < nat N"
  shows "update_state N old cur d (int j) \<noteq> None"
proof (cases "type (old ! j) = GENERAL")
  case True
  from assms have "update_general N old cur d (int j) \<noteq> None"
    by (intro update_general_defined) (auto simp: ends_general_def)
  with assms True show ?thesis
    by (auto simp: update_state_def ends_general_def deref_def)
next
  case False
  with assms have "0 < j" "j < nat N - 1" by (auto simp: ends_general_def)
  with assms have "update_soldier old cur d (int j) \<noteq> None"
    by (intro update_soldier_defined) (auto simp: ends_general_def)
  with assms False show ?thesis
    by (auto simp: update_state_def ends_general_def deref_def)
qed

lemma update_all_defined:
  assumes "ends_general N old" "length cur = nat N" "\<forall>j\<in>set js. j < nat N"
  shows "update_all N old g js cur \<noteq> None"
  using assms
proof (induction js arbitrary: cur)
  case Nil
  then show ?case by simp
next
  case (Cons j js)
  from Cons.prems update_state_defined [of N old cur j "g j"]
  obtain c where c: "update_state N old cur (g j) (int j) = Some c" by auto
  with update_state_promoted [OF c] Cons show ?case by simp
qed

lemma step_defined: "ends_general N a \<Longrightarrow> step N g a \<noteq> None"
  unfolding step_def by (rule update_all_defined) (auto simp: ends_general_def)

lemma step_ends_general:
  assumes "ends_general N a" "step N g a = Some a'"
  shows "ends_general N a'"
  using assms step_promoted [OF assms(2)]
  by (fastforce simp: ends_general_def only_promoted_def)

lemma fire_iff: "fire a = TRUE \<longleftrightarrow> (\<forall>m\<in>set a. color m = RED)"
  by (induction a) (auto simp: c_not_def)

lemma fold_assign_nth:
  "length (fold (\<lambda>i a. a[i := s]) [l..<u] a) = length a \<and>
   (\<forall>p<length a. fold (\<lambda>i a. a[i := s]) [l..<u] a ! p = (if l \<le> p \<and> p < u then s else a ! p))"
  by (induction u) (auto simp: nth_list_update less_Suc_eq)

lemma length_initial: "length (initial N) = nat N"
  by (simp add: initial_def Let_def fold_assign_nth)

lemma initial_nth:
  assumes "p < nat N"
  shows "initial N ! p =
     (if p = nat N - 1 then last_general else if p = 0 then first_general else new_soldier)"
  using assms by (auto simp: initial_def Let_def fold_assign_nth nth_list_update)

lemma ends_general_initial: "ends_general N (initial N)"
  by (auto simp: ends_general_def length_initial initial_nth first_general_def last_general_def)

lemma snapshot_ends_general: "\<exists>a. snapshot N G k = Some a \<and> ends_general N a"
proof (induction k)
  case 0
  show ?case by (simp add: ends_general_initial)
next
  case (Suc k)
  then obtain a where a: "snapshot N G k = Some a" "ends_general N a" by blast
  from step_defined [OF a(2)] obtain a' where "step N (G (int k + 1)) a = Some a'" by blast
  with a step_ends_general show ?case by auto
qed

section \<open>Facts about the main loop\<close>

lemma main_loop_counter: "main_loop fuel N G c t a = Fired t' a' \<Longrightarrow> t \<le> t'"
proof (induction fuel arbitrary: c t a)
  case 0
  then show ?case by simp
next
  case (Suc fuel)
  show ?case
  proof (cases "c = 0")
    case True
    with Suc.prems show ?thesis by simp
  next
    case False
    with Suc.prems obtain b where b: "step N (G t) a = Some b"
      by (auto split: option.splits)
    show ?thesis
    proof (cases "fire b = TRUE")
      case True
      with Suc.prems False b show ?thesis by simp
    next
      case nofire: False
      with Suc.prems False b
      have "main_loop fuel N G (if c > 0 then c - 1 else c) (t + 1) b = Fired t' a'"
        by simp
      from Suc.IH [OF this] show ?thesis by simp
    qed
  qed
qed

lemma main_loop_negative_cap:
  assumes "c < 0"
  shows "main_loop fuel N G c t a = main_loop fuel N G (-1) t a"
  using assms by (induction fuel arbitrary: t a) (auto split: option.splits)

lemma main_loop_not_stopped:
  "c < 0 \<Longrightarrow> main_loop fuel N G c t a \<noteq> Stopped t' a'"
  by (induction fuel arbitrary: t a) (auto split: option.splits)

lemma main_loop_Fired_red:
  "main_loop fuel N G c t a = Fired t' a' \<Longrightarrow> \<forall>m\<in>set a'. color m = RED"
proof (induction fuel arbitrary: c t a)
  case 0
  then show ?case by simp
next
  case (Suc fuel)
  from Suc.prems show ?case
    using Suc.IH fire_iff
    by (auto split: if_splits option.splits)
qed

lemma initial_1: "initial 1 = [last_general]"
  by (simp add: initial_def)

lemma step_one_machine:
  "step 1 g [last_general] = Some [last_general\<lparr>message_direction := g 0\<rparr>]"
  by (simp add: step_def update_state_def update_general_def general_rule_def
      soldier_test_def deref_def commit_def last_general_def)

lemma main_loop_no_fault:
  "ends_general N a \<Longrightarrow> main_loop fuel N G c t a \<noteq> Fault"
proof (induction fuel arbitrary: c t a)
  case 0
  show ?case by simp
next
  case (Suc fuel)
  from step_defined [OF Suc.prems] obtain b where b: "step N (G t) a = Some b" by blast
  with step_ends_general [OF Suc.prems b] Suc.IH show ?case by simp
qed

lemma step_keeps_red:
  assumes "step N g a = Some a'" "j < length a" "color (a ! j) = RED"
  shows "color (a' ! j) = RED"
  using step_promoted [OF assms(1)] assms(2,3) by (auto simp: only_promoted_def)

lemma snapshot_Suc_Some:
  "snapshot N G (Suc k) = Some b \<Longrightarrow> \<exists>a. snapshot N G k = Some a \<and> step N (G (int k + 1)) a = Some b"
  by (auto split: option.splits)

lemma main_loop_Fired_snapshot:
  assumes "main_loop fuel N G c t a = Fired t' a'" and "snapshot N G k = Some a"
    and "t = int k + 1"
  shows "\<exists>k'. t' = int k' \<and> k < k' \<and> snapshot N G k' = Some a' \<and>
           (\<forall>i. k < i \<and> i < k' \<longrightarrow> (\<exists>b. snapshot N G i = Some b \<and> fire b \<noteq> TRUE))"
  using assms
proof (induction fuel arbitrary: c t a k)
  case 0
  then show ?case by simp
next
  case (Suc fuel)
  from Suc.prems(1) have c: "c \<noteq> 0" by auto
  with Suc.prems(1) obtain b where b: "step N (G t) a = Some b"
    by (auto split: option.splits)
  with Suc.prems have snap: "snapshot N G (Suc k) = Some b" by simp
  show ?case
  proof (cases "fire b = TRUE")
    case True
    with Suc.prems(1) c b have "t' = t" "a' = b" by simp_all
    with Suc.prems(3) snap have "t' = int (Suc k) \<and> k < Suc k \<and> snapshot N G (Suc k) = Some a' \<and>
         (\<forall>i. k < i \<and> i < Suc k \<longrightarrow> (\<exists>b. snapshot N G i = Some b \<and> fire b \<noteq> TRUE))"
      by auto
    then show ?thesis by blast
  next
    case False
    with Suc.prems(1) c b
    have "main_loop fuel N G (if c > 0 then c - 1 else c) (t + 1) b = Fired t' a'" by simp
    from Suc.IH [OF this snap] Suc.prems(3)
    obtain k' where k': "t' = int k'" "Suc k < k'" "snapshot N G k' = Some a'"
      "\<forall>i. Suc k < i \<and> i < k' \<longrightarrow> (\<exists>b. snapshot N G i = Some b \<and> fire b \<noteq> TRUE)"
      by auto
    have "\<forall>i. k < i \<and> i < k' \<longrightarrow> (\<exists>b. snapshot N G i = Some b \<and> fire b \<noteq> TRUE)"
    proof (intro allI impI)
      fix i assume i: "k < i \<and> i < k'"
      show "\<exists>b. snapshot N G i = Some b \<and> fire b \<noteq> TRUE"
      proof (cases "i = Suc k")
        case True
        with snap False show ?thesis by simp
      next
        case False
        with i k'(4) show ?thesis by (simp add: Suc_lessI)
      qed
    qed
    with k' show ?thesis by (intro exI [of _ k']) simp
  qed
qed

lemma initial_colours: "\<forall>m\<in>set (initial N). color m = RED \<or> color m = BLACK"
  by (auto simp: in_set_conv_nth length_initial initial_nth
      first_general_def last_general_def new_soldier_def split: if_splits)

lemma snapshot_colours:
  "snapshot N G k = Some a \<Longrightarrow> \<forall>m\<in>set a. color m = RED \<or> color m = BLACK"
proof (induction k arbitrary: a)
  case 0
  then show ?case using initial_colours by auto
next
  case (Suc k)
  from snapshot_Suc_Some [OF Suc.prems] obtain b where b: "snapshot N G k = Some b"
    and st: "step N (G (int k + 1)) b = Some a" by blast
  from Suc.IH [OF b] have "\<forall>p<length b. color (b ! p) = RED \<or> color (b ! p) = BLACK"
    by simp
  with step_promoted [OF st] have "\<forall>p<length a. color (a ! p) = RED \<or> color (a ! p) = BLACK"
    by (fastforce simp: only_promoted_def)
  then show ?case by (auto simp: in_set_conv_nth)
qed

lemma not_fired_black:
  assumes "snapshot N G k = Some b" and "fire b \<noteq> TRUE"
  shows "\<exists>m\<in>set b. color m = BLACK"
  using assms snapshot_colours [OF assms(1)] by (auto simp: fire_iff)

lemma initial_black:
  assumes "3 \<le> N"
  shows "\<exists>m\<in>set (initial N). color m = BLACK"
proof -
  have N: "3 \<le> nat N" using assms by simp
  then have "1 < length (initial N)" by (simp add: length_initial)
  moreover have "initial N ! 1 = new_soldier"
    using N by (auto simp: initial_nth)
  then have "color (initial N ! 1) = BLACK"
    by (simp add: new_soldier_def)
  ultimately show ?thesis by (metis nth_mem)
qed





section \<open>The claims\<close>

subsection \<open>C2: the firing test\<close>

text \<open>
  C2. After a step that produced the snapshot \<open>machines'\<close>, the test of lines 259-264
  leaves \<open>fire\<close> at \<open>TRUE\<close> if and only if every position of \<open>machines'\<close> has colour
  Red; the loop stops there as fired, with the counter of this iteration, if and only
  if that holds, and otherwise goes on with the next iteration.
\<close>

theorem fires_iff_all_red:
  assumes "maxsteps \<noteq> 0" and "step N (G t) machines = Some machines'"
  shows "(fire machines' = TRUE \<longleftrightarrow> (\<forall>j<length machines'. color (machines' ! j) = RED)) \<and>
         (main_loop (Suc fuel) N G maxsteps t machines = Fired t machines' \<longleftrightarrow>
            (\<forall>j<length machines'. color (machines' ! j) = RED)) \<and>
         (\<not> (\<forall>j<length machines'. color (machines' ! j) = RED) \<longrightarrow>
            main_loop (Suc fuel) N G maxsteps t machines =
            main_loop fuel N G (if maxsteps > 0 then maxsteps - 1 else maxsteps) (t + 1) machines')"
proof -
  have red: "fire machines' = TRUE \<longleftrightarrow> (\<forall>j<length machines'. color (machines' ! j) = RED)"
    by (simp add: fire_iff all_set_conv_all_nth)
  show ?thesis
  proof (cases "fire machines' = TRUE")
    case True
    with assms red show ?thesis by simp
  next
    case False
    with assms have go: "main_loop (Suc fuel) N G maxsteps t machines =
        main_loop fuel N G (if maxsteps > 0 then maxsteps - 1 else maxsteps) (t + 1) machines'"
      by simp
    have "main_loop fuel N G (if maxsteps > 0 then maxsteps - 1 else maxsteps) (t + 1) machines'
          \<noteq> Fired t machines'"
      using main_loop_counter [of fuel N G _ "t + 1" machines' t machines'] by auto
    with go red False show ?thesis by simp
  qed
qed

theorem fires_iff_all_red_witness:
  "(-1::int) \<noteq> 0 \<and>
   step 1 (stale 1) (initial 1) = Some [last_general\<lparr>message_direction := BROADCAST\<rparr>] \<and>
   main_loop (Suc 0) 1 stale (-1) 1 (initial 1) =
     Fired 1 [last_general\<lparr>message_direction := BROADCAST\<rparr>]"
proof -
  have h1: "(-1::int) \<noteq> 0" by simp
  have h2: "step 1 (stale 1) (initial 1) = Some [last_general\<lparr>message_direction := BROADCAST\<rparr>]"
    by code_simp
  from fires_iff_all_red [of "-1" 1 stale 1 "initial 1"
      "[last_general\<lparr>message_direction := BROADCAST\<rparr>]" 0] h2
  show ?thesis by (simp add: last_general_def)
qed

subsection \<open>C7: the step cap\<close>

text \<open>
  C7 as the code has it. A negative cap (the default \<open>-1\<close> of line 155 included) never
  stops the loop: the run is the run with cap \<open>-1\<close>, it never leaves through line 245,
  and when it ends it ends fired, on an all-Red snapshot. The cap \<open>0\<close> is not of that
  kind: it ends the loop before the first step.
\<close>

theorem negative_cap_never_stops:
  assumes "maxsteps < 0"
  shows "main fuel N maxsteps alloc G = main fuel N (-1) alloc G \<and>
         (\<forall>t a. main fuel N maxsteps alloc G \<noteq> Ran (Stopped t a)) \<and>
         (\<forall>t a. main fuel N maxsteps alloc G = Ran (Fired t a) \<longrightarrow> (\<forall>m\<in>set a. color m = RED))"
  using assms main_loop_negative_cap [of maxsteps fuel N G 1 "initial N"]
    main_loop_not_stopped [of maxsteps fuel N G 1 "initial N"]
    main_loop_Fired_red [of fuel N G maxsteps 1 "initial N"]
  by (auto simp: main_def)

theorem negative_cap_never_stops_witness:
  "(-7::int) < 0 \<and> main 9 4 (-7) True stale = main 9 4 (-1) True stale \<and>
   (\<forall>t a. main 9 4 (-7) True stale \<noteq> Ran (Stopped t a))"
proof -
  have h: "(-7::int) < 0" by simp
  from negative_cap_never_stops [OF h, of 9 4 True stale] h show ?thesis by blast
qed

text \<open>
  With cap \<open>0\<close> and three machines the loop leaves through line 245 before the first
  step, on the initial line, which does not satisfy the firing test.
\<close>

theorem zero_cap_stops_at_once:
  "main 9 3 0 True stale = Ran (Stopped 1 (initial 3)) \<and> fire (initial 3) = FALSE"
  by code_simp

subsection \<open>C8: a single machine\<close>

text \<open>
  With \<open>N = 1\<close> and no cap the loop runs one step, fires, and line 273 prints \<open>1\<close>,
  not \<open>0\<close>.
\<close>

theorem one_machine_counter_example:
  "main 9 1 (-1) True stale = Ran (Fired 1 [last_general\<lparr>message_direction := BROADCAST\<rparr>]) \<and>
   printed_steps (main 9 1 (-1) True stale) = Some 1 \<and>
   printed_steps (main 9 1 (-1) True stale) \<noteq> Some 0"
  by code_simp

text \<open>
  C8 as the code has it. For \<open>N = 1\<close> the initial line is one Red passive General;
  unless the cap is \<open>0\<close> the loop executes one step, the firing test succeeds on its
  result, and the number printed is \<open>1\<close>.
\<close>

theorem one_machine_fires_after_first_step:
  assumes "0 < fuel" and "maxsteps \<noteq> 0"
  shows "main fuel 1 maxsteps True G =
           Ran (Fired 1 [last_general\<lparr>message_direction := G 1 0\<rparr>]) \<and>
         printed_steps (main fuel 1 maxsteps True G) = Some 1 \<and>
         initial 1 = [last_general] \<and> color last_general = RED"
proof -
  from assms obtain f where f: "fuel = Suc f" by (cases fuel) auto
  have "fire [last_general\<lparr>message_direction := G 1 0\<rparr>] = TRUE"
    by (simp add: last_general_def c_not_def)
  then have "main_loop (Suc f) 1 G maxsteps 1 [last_general] =
      Fired 1 [last_general\<lparr>message_direction := G 1 0\<rparr>]"
    using assms by (simp add: step_one_machine)
  then show ?thesis
    by (simp add: main_def f initial_1 last_general_def)
qed

theorem one_machine_fires_after_first_step_witness:
  "(0::nat) < 5 \<and> (-1::int) \<noteq> 0 \<and>
   main 5 1 (-1) True stale = Ran (Fired 1 [last_general\<lparr>message_direction := stale 1 0\<rparr>]) \<and>
   printed_steps (main 5 1 (-1) True stale) = Some 1"
  using one_machine_fires_after_first_step [of 5 "-1" stale] by simp

subsection \<open>C9: the supported lengths\<close>

text \<open>
  C9. \<open>main\<close> returns the configuration error of lines 195-198 exactly when \<open>N \<le> 0\<close> or
  \<open>N > 1024\<close>, and then nothing else has run; for \<open>1 \<le> N \<le> 1024\<close> (and successful
  allocation) it builds the initial line and enters the main loop.
\<close>

theorem length_check:
  "(main fuel N maxsteps alloc G = Config_error \<longleftrightarrow> N \<le> 0 \<or> N > 1024) \<and>
   (1 \<le> N \<and> N \<le> 1024 \<and> alloc \<longrightarrow>
      main fuel N maxsteps alloc G = Ran (main_loop fuel N G maxsteps 1 (initial N)))"
  by (simp add: main_def)

theorem length_check_witness:
  "main 0 1024 (-1) True stale = Ran (main_loop 0 1024 stale (-1) 1 (initial 1024)) \<and>
   main 0 1025 (-1) True stale = Config_error \<and>
   main 0 0 (-1) True stale = Config_error"
  using length_check [of 0 1024 "-1" True stale] length_check [of 0 1025 "-1" True stale]
    length_check [of 0 0 "-1" True stale]
  by simp

subsection \<open>C10: neighbour accesses stay inside the arrays\<close>

text \<open>
  C10. For \<open>N \<ge> 1\<close> every snapshot of the run exists, that is, no execution of
  \<open>update_state\<close> on the way has left the arrays. In every snapshot positions \<open>0\<close> and
  \<open>N-1\<close> hold Generals and every Soldier is strictly between them, so the Soldier
  branch, which reads \<open>machines_old[j-1]\<close> and \<open>machines_old[j+1]\<close> without a test, runs
  for interior positions only: each call \<open>update_state(j)\<close> with \<open>j < N\<close> on such a
  snapshot, and with it the whole next step, stays in bounds, a step changes a type
  only into General, and \<open>main\<close> never ends in \<open>Fault\<close>.
\<close>

theorem accesses_in_bounds:
  assumes "1 \<le> N"
  shows "\<exists>a. snapshot N G k = Some a \<and> length a = nat N \<and>
           type (a ! 0) = GENERAL \<and> type (a ! nat (N - 1)) = GENERAL \<and>
           (\<forall>j<nat N. type (a ! j) = SOLDIER \<longrightarrow> 0 < j \<and> j < nat N - 1) \<and>
           (\<forall>j<nat N. \<forall>cur d. length cur = nat N \<longrightarrow> update_state N a cur d (int j) \<noteq> None) \<and>
           (\<forall>g. step N g a \<noteq> None) \<and>
           (\<forall>g a'. step N g a = Some a' \<longrightarrow>
              (\<forall>p<nat N. type (a' ! p) = type (a ! p) \<or> type (a' ! p) = GENERAL)) \<and>
           main fuel N maxsteps alloc G \<noteq> Ran Fault"
proof -
  from snapshot_ends_general [of N G k] obtain a
    where a: "snapshot N G k = Some a" "ends_general N a" by blast
  from a(2) have interior: "\<forall>j<nat N. type (a ! j) \<noteq> GENERAL \<longrightarrow> 0 < j \<and> j < nat N - 1"
    by (simp add: ends_general_def)
  have "type (a ! 0) = GENERAL"
    using interior [rule_format, of 0] assms by auto
  moreover have "type (a ! nat (N - 1)) = GENERAL"
    using interior [rule_format, of "nat (N - 1)"] assms by (auto simp: nat_diff_distrib)
  moreover have "\<forall>j<nat N. type (a ! j) = SOLDIER \<longrightarrow> 0 < j \<and> j < nat N - 1"
    using a(2) by (auto simp: ends_general_def)
  moreover have "\<forall>j<nat N. \<forall>cur d. length cur = nat N \<longrightarrow> update_state N a cur d (int j) \<noteq> None"
    using a(2) update_state_defined by blast
  moreover have "\<forall>g. step N g a \<noteq> None"
    using a(2) step_defined by blast
  moreover have "\<forall>g a'. step N g a = Some a' \<longrightarrow>
      (\<forall>p<nat N. type (a' ! p) = type (a ! p) \<or> type (a' ! p) = GENERAL)"
    using a(2) step_promoted by (fastforce simp: ends_general_def only_promoted_def)
  moreover have "main fuel N maxsteps alloc G \<noteq> Ran Fault"
    using main_loop_no_fault [OF ends_general_initial] by (simp add: main_def)
  ultimately show ?thesis using a by (auto simp: ends_general_def)
qed

theorem accesses_in_bounds_witness:
  "(1::int) \<le> 3 \<and>
   (\<exists>a. snapshot 3 stale 2 = Some a \<and> type (a ! 0) = GENERAL \<and> type (a ! 2) = GENERAL \<and>
      (\<forall>g. step 3 g a \<noteq> None)) \<and>
   main 9 3 (-1) True stale \<noteq> Ran Fault"
  using accesses_in_bounds [of 3 stale 2 9 "-1" True] by auto

subsection \<open>C4: Red is kept\<close>

text \<open>
  C4. A position that is Red in the snapshot after \<open>k\<close> steps is Red in the snapshot
  after \<open>k + d\<close> steps, for every \<open>d\<close>; the line keeps its length.
\<close>

theorem red_stays_red:
  assumes "snapshot N G k = Some a" and "snapshot N G (k + d) = Some a'"
    and "j < length a" and "color (a ! j) = RED"
  shows "length a' = length a \<and> color (a' ! j) = RED"
  using assms(2)
proof (induction d arbitrary: a')
  case 0
  with assms show ?case by simp
next
  case (Suc d)
  from Suc.prems obtain b where b: "snapshot N G (k + d) = Some b"
    and st: "step N (G (int (k + d) + 1)) b = Some a'"
    using snapshot_Suc_Some [of N G "k + d" a'] by auto
  from Suc.IH [OF b] have "length b = length a" "color (b ! j) = RED" by simp_all
  with step_promoted [OF st] step_keeps_red [OF st, of j] assms(3) show ?case by simp
qed

theorem red_stays_red_witness:
  "snapshot 3 stale 0 = Some (initial 3) \<and>
   snapshot 3 stale (0 + 4) =
     Some [first_general\<lparr>testing := FALSE, message_direction := BROADCAST\<rparr>,
           new_soldier\<lparr>type := GENERAL, color := RED, testing := TRUE, message := RESET_MSG\<rparr>,
           last_general\<lparr>message_direction := BROADCAST\<rparr>] \<and>
   (0::nat) < length (initial 3) \<and> color (initial 3 ! 0) = RED \<and>
   color ([first_general\<lparr>testing := FALSE, message_direction := BROADCAST\<rparr>,
           new_soldier\<lparr>type := GENERAL, color := RED, testing := TRUE, message := RESET_MSG\<rparr>,
           last_general\<lparr>message_direction := BROADCAST\<rparr>] ! 0) = RED"
proof -
  have h1: "snapshot 3 stale 0 = Some (initial 3)" by simp
  have h2: "snapshot 3 stale (0 + 4) =
     Some [first_general\<lparr>testing := FALSE, message_direction := BROADCAST\<rparr>,
           new_soldier\<lparr>type := GENERAL, color := RED, testing := TRUE, message := RESET_MSG\<rparr>,
           last_general\<lparr>message_direction := BROADCAST\<rparr>]"
    by code_simp
  have h3: "(0::nat) < length (initial 3)" by (simp add: length_initial)
  have h4: "color (initial 3 ! 0) = RED" by (simp add: initial_nth first_general_def)
  from red_stays_red [OF h1 h2 h3 h4] h1 h2 h3 h4 show ?thesis by simp
qed

subsection \<open>C3: the first firing\<close>

text \<open>
  With two machines, and with one, the initial line is all Red already; the firing test
  first runs after step \<open>1\<close> and succeeds there, so the snapshot before the first
  success has no Black machine.
\<close>

theorem fires_from_all_red_line:
  "main 9 2 (-1) True stale =
     Ran (Fired 1 [first_general\<lparr>testing := FALSE, message_direction := BROADCAST, message := TEST_MSG\<rparr>,
                   last_general\<lparr>message_direction := BROADCAST\<rparr>]) \<and>
   map color (initial 2) = [RED, RED] \<and>
   main 9 1 (-1) True stale = Ran (Fired 1 [last_general\<lparr>message_direction := BROADCAST\<rparr>]) \<and>
   map color (initial 1) = [RED]"
  by code_simp

text \<open>
  C3 as the code has it, for \<open>N \<ge> 3\<close>. When the run ends fired with counter \<open>t\<close> and
  snapshot \<open>a\<close>, that is, when the firing test succeeds for the first time after step
  \<open>t\<close>: every machine of \<open>a\<close> is Red, \<open>a\<close> is the snapshot after \<open>t \<ge> 1\<close> steps, and
  every earlier snapshot, the one just before included, has a Black machine.
\<close>

theorem first_firing:
  assumes "3 \<le> N" and "main fuel N maxsteps alloc G = Ran (Fired t a)"
  shows "(\<forall>m\<in>set a. color m = RED) \<and> 1 \<le> t \<and> snapshot N G (nat t) = Some a \<and>
         (\<forall>i<nat t. \<exists>b. snapshot N G i = Some b \<and> (\<exists>m\<in>set b. color m = BLACK))"
proof -
  from assms(2) have run: "main_loop fuel N G maxsteps 1 (initial N) = Fired t a"
    by (auto simp: main_def split: if_splits)
  from main_loop_Fired_snapshot [OF run, of 0]
  obtain k' where k': "t = int k'" "0 < k'" "snapshot N G k' = Some a"
    "\<forall>i. 0 < i \<and> i < k' \<longrightarrow> (\<exists>b. snapshot N G i = Some b \<and> fire b \<noteq> TRUE)"
    by auto
  have "\<exists>b. snapshot N G i = Some b \<and> (\<exists>m\<in>set b. color m = BLACK)" if "i < k'" for i
  proof (cases "i = 0")
    case True
    with initial_black [OF assms(1)] show ?thesis by simp
  next
    case False
    with that k'(4) obtain b where "snapshot N G i = Some b" "fire b \<noteq> TRUE" by auto
    with not_fired_black show ?thesis by blast
  qed
  moreover have "\<forall>m\<in>set a. color m = RED"
    using main_loop_Fired_red [OF run] .
  ultimately show ?thesis using k' by simp
qed

theorem first_firing_witness:
  "(3::int) \<le> 3 \<and>
   main 9 3 (-1) True stale =
     Ran (Fired 4
       [first_general\<lparr>testing := FALSE, message_direction := BROADCAST\<rparr>,
        new_soldier\<lparr>type := GENERAL, color := RED, testing := TRUE, message := RESET_MSG\<rparr>,
        last_general\<lparr>message_direction := BROADCAST\<rparr>]) \<and>
   snapshot 3 stale (nat 4) =
     Some [first_general\<lparr>testing := FALSE, message_direction := BROADCAST\<rparr>,
        new_soldier\<lparr>type := GENERAL, color := RED, testing := TRUE, message := RESET_MSG\<rparr>,
        last_general\<lparr>message_direction := BROADCAST\<rparr>] \<and>
   (\<exists>b. snapshot 3 stale 3 = Some b \<and> (\<exists>m\<in>set b. color m = BLACK))"
proof -
  have h1: "(3::int) \<le> 3" by simp
  have h2: "main 9 3 (-1) True stale =
     Ran (Fired 4
       [first_general\<lparr>testing := FALSE, message_direction := BROADCAST\<rparr>,
        new_soldier\<lparr>type := GENERAL, color := RED, testing := TRUE, message := RESET_MSG\<rparr>,
        last_general\<lparr>message_direction := BROADCAST\<rparr>])"
    by code_simp
  from first_firing [OF h1 h2] h2 show ?thesis by simp
qed

subsection \<open>C5: a General that receives a Reset\<close>



subsection \<open>C6: the timer\<close>

text \<open>
  C6 on the code. With four machines and no cap the run fires at step \<open>7\<close>. After five
  steps the passive, testing Soldier at position \<open>1\<close> has timer \<open>2\<close> and is offered the
  second MidAck; step six takes the promotion branch (lines 580-583, \<open>timer = 0\<close>) and
  then the decrement of lines 623-624, so the snapshot after six steps holds the timer
  \<open>-1\<close>.
\<close>

theorem timer_below_zero:
  "printed_steps (main 9 4 (-1) True stale) = Some 7 \<and>
   map_option (map timer) (snapshot 4 stale 5) = Some [0, 2, 0, 0] \<and>
   map_option (map from_right) (snapshot 4 stale 5) = Some [0, 0, MID_ACK_MSG, 0] \<and>
   map_option (map timer) (snapshot 4 stale 6) = Some [0, - 1, 0, 0]"
  by code_simp

end
